theory Spec2Isabelle
  imports Main "HOL-Library.Monad_Syntax"
begin

section \<open>Type descriptors (class RTTI of rtti/variadic-definition.cpp)\<close>

text \<open>
  A descriptor is an object of class \<^verbatim>\<open>RTTI\<close>: a class name and a vector of pointers to
  the parents' descriptors. Descriptors are compared by address (\<^verbatim>\<open>this == &r\<close>), so the
  model keeps an explicit store from addresses to objects; the address type \<open>'a\<close> is left
  open (the addresses of static members, of local variables, or numbers).
\<close>

record 'a RTTI =
  m_className :: string
  m_parents :: "'a list"

type_synonym 'a store = "'a \<Rightarrow> 'a RTTI option"

text \<open>
  The constructor \<^verbatim>\<open>RTTI(className, parents)\<close> run on the storage at address \<open>this\<close>:
  both members are copied from the arguments, nothing is inspected.
\<close>

definition RTTI_ctor :: "'a \<Rightarrow> string \<Rightarrow> 'a list \<Rightarrow> 'a store \<Rightarrow> 'a store" where
  "RTTI_ctor this className parents st =
     st(this \<mapsto> \<lparr>m_className = className, m_parents = parents\<rparr>)"

text \<open>\<^verbatim>\<open>getClassName\<close> reads the member of the object at \<open>this\<close>.\<close>

definition getClassName :: "'a store \<Rightarrow> 'a \<Rightarrow> string option" where
  "getClassName st this = map_option m_className (st this)"

subsection \<open>The ancestry query\<close>

text \<open>
  The \<^verbatim>\<open>for\<close> loop of \<^verbatim>\<open>derivesFrom\<close> over \<^verbatim>\<open>m_parents\<close>: the recursive call on each
  parent in turn, \<^verbatim>\<open>return true\<close> at the first parent that answers true, \<^verbatim>\<open>return false\<close>
  after the last one. A call that yields no result (\<open>None\<close>) leaves the loop without one.
\<close>

fun any_parent :: "('a \<Rightarrow> bool option) \<Rightarrow> 'a list \<Rightarrow> bool option" where
  "any_parent call [] = Some False"
| "any_parent call (i # rest) =
     do { b \<leftarrow> call i; if b then Some True else any_parent call rest }"

lemma any_parent_mono [partial_function_mono]:
  assumes "\<And>p. mono_option (\<lambda>f. call f p)"
  shows "mono_option (\<lambda>f. any_parent (call f) ps)"
proof (induction ps)
  case Nil
  show ?case by (simp add: option.const_mono)
next
  case (Cons p ps)
  show ?case
    unfolding any_parent.simps
    by (intro partial_function_mono assms Cons)
qed

text \<open>
  \<^verbatim>\<open>bool derivesFrom(const RTTI& r) const\<close>. The address comparison comes first and reads
  no memory; only then is the object at \<open>this\<close> read. The recursion follows pointers and
  need not end on a cyclic store, so the result is optional: \<open>None\<close> stands for a call that
  returns nothing, either because the recursion never ends or because it reads an address
  that holds no constructed descriptor.
\<close>

partial_function (option) derivesFrom :: "'a store \<Rightarrow> 'a \<Rightarrow> 'a \<Rightarrow> bool option" where
  [code]: "derivesFrom st this r =
     (if this = r then Some True
      else case st this of
             None \<Rightarrow> None
           | Some obj \<Rightarrow> any_parent (\<lambda>i. derivesFrom st i r) (m_parents obj))"

subsection \<open>Descriptor graphs\<close>

text \<open>The direct-parent relation of a store: an edge from each descriptor to each of its parents.\<close>

definition parent_rel :: "'a store \<Rightarrow> ('a \<times> 'a) set" where
  "parent_rel st = {(a, p). \<exists>obj. st a = Some obj \<and> p \<in> set (m_parents obj)}"

text \<open>
  A descriptor graph: finitely many descriptors, every parent pointer of which refers to a
  descriptor of the store. It is acyclic when its parent relation is.
\<close>

definition descriptor_graph :: "'a store \<Rightarrow> bool" where
  "descriptor_graph st \<longleftrightarrow>
     finite (dom st) \<and> (\<forall>a obj. st a = Some obj \<longrightarrow> set (m_parents obj) \<subseteq> dom st)"

definition acyclic_graph :: "'a store \<Rightarrow> bool" where
  "acyclic_graph st \<longleftrightarrow> descriptor_graph st \<and> acyclic (parent_rel st)"

text \<open>
  The stores that a sequence of constructor calls builds when every new descriptor lives at
  a fresh address and its parent list holds addresses of descriptors built before it.
  \<^verbatim>\<open>m_parents\<close> is a \<^verbatim>\<open>const\<close> member: no other operation changes a store.
\<close>

inductive constructed :: "'a store \<Rightarrow> bool" where
  no_descriptors: "constructed Map.empty"
| new_descriptor:
    "constructed st \<Longrightarrow> this \<notin> dom st \<Longrightarrow> set parents \<subseteq> dom st \<Longrightarrow>
     constructed (RTTI_ctor this className parents st)"

text \<open>Two stores that differ at most in the class names of their descriptors.\<close>

definition same_parents :: "'a store \<Rightarrow> 'a store \<Rightarrow> bool" where
  "same_parents st st' \<longleftrightarrow> (\<forall>x. map_option m_parents (st x) = map_option m_parents (st' x))"

subsection \<open>The memoized variant of the query\<close>

text \<open>
  Modelled from the spec: the source has no memoized traversal; the specification allows an
  implementation to add a cache of "visited, result known" per query call. The cache maps a
  descriptor whose query has finished to its result; it starts empty at every query, is
  consulted after the identity test, and is threaded through the loop over the parents.
\<close>

type_synonym 'a cache = "'a \<Rightarrow> bool option"

fun any_parent_memo ::
  "('a \<Rightarrow> 'a cache \<Rightarrow> (bool \<times> 'a cache) option) \<Rightarrow> 'a list \<Rightarrow> 'a cache \<Rightarrow> (bool \<times> 'a cache) option"
where
  "any_parent_memo call [] cache = Some (False, cache)"
| "any_parent_memo call (i # rest) cache =
     do { (b, cache') \<leftarrow> call i cache;
          if b then Some (True, cache') else any_parent_memo call rest cache' }"

lemma any_parent_memo_mono [partial_function_mono]:
  assumes "\<And>p c. mono_option (\<lambda>f. call f p c)"
  shows "mono_option (\<lambda>f. any_parent_memo (call f) ps cache)"
proof (induction ps arbitrary: cache)
  case Nil
  show ?case by (simp add: option.const_mono)
next
  case (Cons p ps)
  show ?case
    unfolding any_parent_memo.simps case_prod_beta
    by (intro partial_function_mono assms Cons)
qed

partial_function (option) derivesFrom_cached ::
  "'a store \<Rightarrow> 'a \<Rightarrow> 'a \<Rightarrow> 'a cache \<Rightarrow> (bool \<times> 'a cache) option"
where
  [code]: "derivesFrom_cached st r this cache =
     (if this = r then Some (True, cache)
      else case cache this of
             Some known \<Rightarrow> Some (known, cache)
           | None \<Rightarrow>
               (case st this of
                  None \<Rightarrow> None
                | Some obj \<Rightarrow>
                    do { (b, cache') \<leftarrow>
                           any_parent_memo (\<lambda>i. derivesFrom_cached st r i) (m_parents obj) cache;
                         Some (b, cache'(this \<mapsto> b)) }))"

definition derivesFrom_memo :: "'a store \<Rightarrow> 'a \<Rightarrow> 'a \<Rightarrow> bool option" where
  "derivesFrom_memo st this r = map_option fst (derivesFrom_cached st r this Map.empty)"

text \<open>A cache is sound for target \<open>r\<close> when every entry is the reachability of \<open>r\<close>.\<close>

definition cache_sound :: "'a store \<Rightarrow> 'a \<Rightarrow> 'a cache \<Rightarrow> bool" where
  "cache_sound st r cache \<longleftrightarrow>
     (\<forall>n known. cache n = Some known \<longrightarrow> known = ((n, r) \<in> (parent_rel st)\<^sup>*))"

subsection \<open>The classless test: descriptors as local variables\<close>

text \<open>
  \<^verbatim>\<open>classlessRTTITest\<close> declares five descriptors on the stack; each local variable is an
  address, and the declarations run top to bottom.
\<close>

datatype local_var =
  vehicleType | landVehicleType | waterVehicleType | amphibiousVehicleType | fruitType

definition classlessRTTITest_store :: "local_var store" where
  "classlessRTTITest_store =
     (let st = Map.empty;
          st = RTTI_ctor vehicleType ''Vehicle'' [] st;
          st = RTTI_ctor landVehicleType ''LandVehicle'' [vehicleType] st;
          st = RTTI_ctor waterVehicleType ''WaterVehicle'' [vehicleType] st;
          st = RTTI_ctor amphibiousVehicleType ''AmphibiousVehicle''
                 [landVehicleType, waterVehicleType] st;
          st = RTTI_ctor fruitType ''Fruit'' [] st
      in st)"

text \<open>
  Two root descriptors with the same class name at different addresses.
\<close>

definition twins :: "nat store" where
  "twins = RTTI_ctor 1 ''Thing'' [] (RTTI_ctor 0 ''Thing'' [] Map.empty)"

subsection \<open>The static binding layer: \<^verbatim>\<open>RTTI_DECLARE\<close> and \<^verbatim>\<open>RTTI_DEFINE\<close>\<close>

datatype cls = StaffMember | Librarian | Teacher | TeachingLibrarian | Sailboat

text \<open>
  \<^verbatim>\<open>RTTI_DECLARE\<close> gives every class a static member \<^verbatim>\<open>typeInfo\<close>; \<open>typeInfo C\<close> is the
  address \<^verbatim>\<open>&C::typeInfo\<close>. Distinct static objects have distinct addresses.
\<close>

datatype static_addr = typeInfo cls

text \<open>The preprocessor's \<^verbatim>\<open>#ThisClass\<close>.\<close>

fun stringify :: "cls \<Rightarrow> string" where
  "stringify StaffMember = ''StaffMember''"
| "stringify Librarian = ''Librarian''"
| "stringify Teacher = ''Teacher''"
| "stringify TeachingLibrarian = ''TeachingLibrarian''"
| "stringify Sailboat = ''Sailboat''"

text \<open>
  \<^verbatim>\<open>RTTI_DEFINE(ThisClass, Parents...)\<close> initialises \<^verbatim>\<open>ThisClass::typeInfo\<close> from
  \<^verbatim>\<open>RTTIInfo<ThisClass, Parents...>(#ThisClass)\<close>, whose constructor passes the name and the
  list \<^verbatim>\<open>{ &Parents::typeInfo... }\<close> to the constructor of \<^verbatim>\<open>RTTI\<close>.
\<close>

definition RTTI_DEFINE :: "cls \<Rightarrow> cls list \<Rightarrow> static_addr store \<Rightarrow> static_addr store" where
  "RTTI_DEFINE ThisClass Parents st =
     RTTI_ctor (typeInfo ThisClass) (stringify ThisClass) (map typeInfo Parents) st"

text \<open>
  The five definitions of the file, initialised in the order in which they are written
  (one translation unit).
\<close>

definition static_store :: "static_addr store" where
  "static_store =
     (let st = Map.empty;
          st = RTTI_DEFINE StaffMember [] st;
          st = RTTI_DEFINE Librarian [StaffMember] st;
          st = RTTI_DEFINE Teacher [StaffMember] st;
          st = RTTI_DEFINE TeachingLibrarian [Teacher, Librarian] st;
          st = RTTI_DEFINE Sailboat [] st
      in st)"

text \<open>
  An instance carries the class it was created as (\<^verbatim>\<open>new C()\<close>). \<^verbatim>\<open>getTypeInfo\<close> is
  virtual and every class of the file overrides it through \<^verbatim>\<open>RTTI_DECLARE\<close> with
  \<^verbatim>\<open>return typeInfo;\<close>, so a call through a pointer of any static type runs the override
  of the instance's own class: one equation per class body.
\<close>

datatype object = Instance cls

fun getTypeInfo :: "object \<Rightarrow> static_addr" where
  "getTypeInfo (Instance StaffMember) = typeInfo StaffMember"
| "getTypeInfo (Instance Librarian) = typeInfo Librarian"
| "getTypeInfo (Instance Teacher) = typeInfo Teacher"
| "getTypeInfo (Instance TeachingLibrarian) = typeInfo TeachingLibrarian"
| "getTypeInfo (Instance Sailboat) = typeInfo Sailboat"

text \<open>
  The pointers of \<^verbatim>\<open>classfulRTTITest\<close>: the first four have static type
  \<^verbatim>\<open>StaffMember*\<close>, the last \<^verbatim>\<open>Sailboat*\<close>.
\<close>

definition staff :: object where "staff = Instance StaffMember"
definition librarian :: object where "librarian = Instance Librarian"
definition teacher :: object where "teacher = Instance Teacher"
definition teachingLibrarian :: object where "teachingLibrarian = Instance TeachingLibrarian"
definition sailboat :: object where "sailboat = Instance Sailboat"

section \<open>Properties of the loop and of the query\<close>

subsection \<open>The loop over the parents\<close>

lemma any_parent_all_defined:
  "(\<And>p. p \<in> set ps \<Longrightarrow> call p = Some (g p)) \<Longrightarrow>
   any_parent call ps = Some (\<exists>p\<in>set ps. g p)"
  by (induction ps) auto

lemma any_parent_transfer:
  "any_parent f ps = Some y \<Longrightarrow> (\<And>p z. p \<in> set ps \<Longrightarrow> f p = Some z \<Longrightarrow> g p = Some z) \<Longrightarrow>
   any_parent g ps = Some y"
  by (induction ps) (auto split: bind_splits if_splits)

lemma parent_rel_finite:
  assumes "descriptor_graph st"
  shows "finite (parent_rel st)"
proof -
  have "parent_rel st \<subseteq> dom st \<times> dom st"
    using assms unfolding parent_rel_def descriptor_graph_def by auto
  moreover have "finite (dom st \<times> dom st)"
    using assms unfolding descriptor_graph_def by simp
  ultimately show ?thesis by (rule finite_subset)
qed

lemma rtrancl_parent_step:
  "(a, r) \<in> (parent_rel st)\<^sup>* \<longleftrightarrow>
   a = r \<or> (\<exists>obj. st a = Some obj \<and> (\<exists>p\<in>set (m_parents obj). (p, r) \<in> (parent_rel st)\<^sup>*))"
proof
  assume "(a, r) \<in> (parent_rel st)\<^sup>*"
  then show "a = r \<or> (\<exists>obj. st a = Some obj \<and> (\<exists>p\<in>set (m_parents obj). (p, r) \<in> (parent_rel st)\<^sup>*))"
    by (cases rule: converse_rtranclE) (auto simp: parent_rel_def)
next
  assume "a = r \<or> (\<exists>obj. st a = Some obj \<and> (\<exists>p\<in>set (m_parents obj). (p, r) \<in> (parent_rel st)\<^sup>*))"
  then show "(a, r) \<in> (parent_rel st)\<^sup>*"
  proof
    assume "a = r" then show ?thesis by simp
  next
    assume "\<exists>obj. st a = Some obj \<and> (\<exists>p\<in>set (m_parents obj). (p, r) \<in> (parent_rel st)\<^sup>*)"
    then obtain obj p where "st a = Some obj" "p \<in> set (m_parents obj)" "(p, r) \<in> (parent_rel st)\<^sup>*"
      by blast
    then have "(a, p) \<in> parent_rel st" by (auto simp: parent_rel_def)
    then show ?thesis
      using \<open>(p, r) \<in> (parent_rel st)\<^sup>*\<close> by (rule converse_rtrancl_into_rtrancl)
  qed
qed

lemma derivesFrom_reachable:
  assumes g: "acyclic_graph st" and a: "a \<in> dom st"
  shows "derivesFrom st a r = Some ((a, r) \<in> (parent_rel st)\<^sup>*)"
proof -
  have dg: "descriptor_graph st" and ac: "acyclic (parent_rel st)"
    using g by (simp_all add: acyclic_graph_def)
  have "wf ((parent_rel st)\<inverse>)"
    using parent_rel_finite[OF dg] ac by (rule finite_acyclic_wf_converse)
  then show ?thesis using a
  proof (induction a rule: wf_induct_rule)
    case (less a)
    from less.prems obtain obj where obj: "st a = Some obj" by auto
    show ?case
    proof (cases "a = r")
      case True
      then show ?thesis by (subst derivesFrom.simps) simp
    next
      case False
      have ih: "derivesFrom st p r = Some ((p, r) \<in> (parent_rel st)\<^sup>*)"
        if "p \<in> set (m_parents obj)" for p
      proof -
        have "(p, a) \<in> (parent_rel st)\<inverse>" using that obj by (auto simp: parent_rel_def)
        moreover have "p \<in> dom st" using dg obj that unfolding descriptor_graph_def by blast
        ultimately show ?thesis by (rule less.IH)
      qed
      have "derivesFrom st a r = any_parent (\<lambda>i. derivesFrom st i r) (m_parents obj)"
        using False obj by (subst derivesFrom.simps) simp
      also have "\<dots> = Some (\<exists>p\<in>set (m_parents obj). (p, r) \<in> (parent_rel st)\<^sup>*)"
        by (rule any_parent_all_defined) (rule ih)
      also have "(\<exists>p\<in>set (m_parents obj). (p, r) \<in> (parent_rel st)\<^sup>*) \<longleftrightarrow> (a, r) \<in> (parent_rel st)\<^sup>*"
        using False obj by (subst (2) rtrancl_parent_step) simp
      finally show ?thesis .
    qed
  qed
qed

subsection \<open>Construction keeps the graph acyclic\<close>

lemma parent_rel_ctor:
  "parent_rel (RTTI_ctor this n ps st) =
     {(a, p). (a, p) \<in> parent_rel st \<and> a \<noteq> this} \<union> {this} \<times> set ps"
  by (auto simp: parent_rel_def RTTI_ctor_def split: if_splits)

lemma descriptor_graph_ctor:
  assumes "descriptor_graph st" and "set ps \<subseteq> dom st"
  shows "descriptor_graph (RTTI_ctor this n ps st)"
proof -
  have fin: "finite (dom st)" and closed: "\<And>a obj. st a = Some obj \<Longrightarrow> set (m_parents obj) \<subseteq> dom st"
    using assms(1) unfolding descriptor_graph_def by blast+
  have "set (m_parents obj) \<subseteq> dom (RTTI_ctor this n ps st)"
    if "RTTI_ctor this n ps st a = Some obj" for a obj
  proof (cases "a = this")
    case True
    then have "m_parents obj = ps" using that by (auto simp: RTTI_ctor_def)
    then show ?thesis using assms(2) by (auto simp: RTTI_ctor_def)
  next
    case False
    then have "st a = Some obj" using that by (simp add: RTTI_ctor_def)
    from closed[OF this] show ?thesis by (auto simp: RTTI_ctor_def)
  qed
  moreover have "finite (dom (RTTI_ctor this n ps st))"
    using fin by (simp add: RTTI_ctor_def)
  ultimately show ?thesis unfolding descriptor_graph_def by blast
qed

lemma trancl_avoids_fresh:
  assumes "(x, y) \<in> (r \<union> {this} \<times> P)\<^sup>+" and "x \<noteq> this" and "this \<notin> Range r"
  shows "(x, y) \<in> r\<^sup>+"
  using assms(1)
proof (induction rule: trancl_induct)
  case (base y)
  then show ?case using assms(2) by auto
next
  case (step y z)
  from step.IH have "y \<in> Range r" by (meson Range_iff tranclE)
  then have "y \<noteq> this" using assms(3) by auto
  with step.hyps(2) have "(y, z) \<in> r" by auto
  with step.IH show ?case by (rule trancl_into_trancl)
qed

lemma acyclic_fresh_node:
  assumes ac: "acyclic r" and fresh: "this \<notin> Range r" and np: "this \<notin> P"
  shows "acyclic (r \<union> {this} \<times> P)"
proof (rule acyclicI, rule allI, rule notI)
  fix x
  assume cyc: "(x, x) \<in> (r \<union> {this} \<times> P)\<^sup>+"
  show False
  proof (cases "x = this")
    case True
    from cyc have "x \<in> Range (r \<union> {this} \<times> P)" by (meson Range_iff tranclE)
    then show False using True fresh np by auto
  next
    case False
    from cyc False fresh have "(x, x) \<in> r\<^sup>+" by (rule trancl_avoids_fresh)
    then show False using ac by (simp add: acyclic_def)
  qed
qed

lemma acyclic_graph_ctor:
  assumes g: "acyclic_graph st" and fresh: "this \<notin> dom st" and ps: "set ps \<subseteq> dom st"
  shows "acyclic_graph (RTTI_ctor this n ps st)"
proof -
  have dg: "descriptor_graph st" and ac: "acyclic (parent_rel st)"
    using g by (simp_all add: acyclic_graph_def)
  have range: "Range (parent_rel st) \<subseteq> dom st"
    using dg unfolding descriptor_graph_def parent_rel_def by auto
  have same: "{(a, p). (a, p) \<in> parent_rel st \<and> a \<noteq> this} = parent_rel st"
    using fresh by (auto simp: parent_rel_def)
  have "acyclic (parent_rel st \<union> {this} \<times> set ps)"
    using ac range fresh ps by (intro acyclic_fresh_node) auto
  then have "acyclic (parent_rel (RTTI_ctor this n ps st))"
    by (simp add: parent_rel_ctor same)
  then show ?thesis
    using descriptor_graph_ctor[OF dg ps] by (simp add: acyclic_graph_def)
qed

lemma acyclic_graph_empty: "acyclic_graph Map.empty"
  by (simp add: acyclic_graph_def descriptor_graph_def parent_rel_def acyclic_def)

lemma constructed_acyclic_graph: "constructed st \<Longrightarrow> acyclic_graph st"
  by (induction rule: constructed.induct) (simp_all add: acyclic_graph_empty acyclic_graph_ctor)

lemma dom_ctor: "dom (RTTI_ctor this n ps st) = insert this (dom st)"
  by (simp add: RTTI_ctor_def)

subsection \<open>The memoized traversal and the irrelevance of names\<close>

lemma any_parent_memo_all_defined:
  assumes "\<And>p c. p \<in> set ps \<Longrightarrow> I c \<Longrightarrow> \<exists>c'. call p c = Some (g p, c') \<and> I c'"
    and "I cache"
  shows "\<exists>c'. any_parent_memo call ps cache = Some (\<exists>p\<in>set ps. g p, c') \<and> I c'"
  using assms
proof (induction ps arbitrary: cache)
  case Nil
  then show ?case by simp
next
  case (Cons p ps)
  from Cons.prems(1)[of p cache] Cons.prems(2)
  obtain c1 where c1: "call p cache = Some (g p, c1)" "I c1" by auto
  show ?case
  proof (cases "g p")
    case True
    then show ?thesis using c1 by auto
  next
    case False
    have "\<exists>c'. any_parent_memo call ps c1 = Some (\<exists>p\<in>set ps. g p, c') \<and> I c'"
      using Cons.prems(1) c1(2) by (intro Cons.IH) auto
    then show ?thesis using c1 False by auto
  qed
qed

lemma derivesFrom_cached_reachable:
  assumes g: "acyclic_graph st" and a: "a \<in> dom st" and c: "cache_sound st r cache"
  shows "\<exists>cache'. derivesFrom_cached st r a cache = Some ((a, r) \<in> (parent_rel st)\<^sup>*, cache')
            \<and> cache_sound st r cache'"
proof -
  have dg: "descriptor_graph st" and ac: "acyclic (parent_rel st)"
    using g by (simp_all add: acyclic_graph_def)
  have "wf ((parent_rel st)\<inverse>)"
    using parent_rel_finite[OF dg] ac by (rule finite_acyclic_wf_converse)
  then show ?thesis using a c
  proof (induction a arbitrary: cache rule: wf_induct_rule)
    case (less a)
    from less.prems obtain obj where obj: "st a = Some obj" by auto
    show ?case
    proof (cases "a = r")
      case True
      then show ?thesis using less.prems(2) by (subst derivesFrom_cached.simps) simp
    next
      case False
      show ?thesis
      proof (cases "cache a")
        case (Some known)
        then have "known = ((a, r) \<in> (parent_rel st)\<^sup>*)"
          using less.prems(2) by (simp add: cache_sound_def)
        then show ?thesis
          using False Some less.prems(2) by (subst derivesFrom_cached.simps) simp
      next
        case None
        have ih: "\<exists>c'. derivesFrom_cached st r p c = Some ((p, r) \<in> (parent_rel st)\<^sup>*, c')
                    \<and> cache_sound st r c'"
          if "p \<in> set (m_parents obj)" "cache_sound st r c" for p c
        proof -
          have "(p, a) \<in> (parent_rel st)\<inverse>" using that obj by (auto simp: parent_rel_def)
          moreover have "p \<in> dom st" using dg obj that unfolding descriptor_graph_def by blast
          ultimately show ?thesis using that(2) by (rule less.IH)
        qed
        have "\<exists>c'. any_parent_memo (\<lambda>i. derivesFrom_cached st r i) (m_parents obj) cache
                 = Some (\<exists>p\<in>set (m_parents obj). (p, r) \<in> (parent_rel st)\<^sup>*, c')
               \<and> cache_sound st r c'"
          by (rule any_parent_memo_all_defined[where I = "cache_sound st r"]) (use ih less.prems(2) in auto)
        then obtain c' where loop:
          "any_parent_memo (\<lambda>i. derivesFrom_cached st r i) (m_parents obj) cache
             = Some (\<exists>p\<in>set (m_parents obj). (p, r) \<in> (parent_rel st)\<^sup>*, c')"
          and c': "cache_sound st r c'" by blast
        have reach: "(\<exists>p\<in>set (m_parents obj). (p, r) \<in> (parent_rel st)\<^sup>*) \<longleftrightarrow> (a, r) \<in> (parent_rel st)\<^sup>*"
          using False obj by (subst (2) rtrancl_parent_step) simp
        have res: "derivesFrom_cached st r a cache
             = Some ((a, r) \<in> (parent_rel st)\<^sup>*, c'(a \<mapsto> (a, r) \<in> (parent_rel st)\<^sup>*))"
          using False None obj loop reach by (subst derivesFrom_cached.simps) simp
        have "cache_sound st r (c'(a \<mapsto> (a, r) \<in> (parent_rel st)\<^sup>*))"
          using c' by (simp add: cache_sound_def)
        with res show ?thesis by blast
      qed
    qed
  qed
qed

lemma derivesFrom_memo_reachable:
  assumes "acyclic_graph st" and "a \<in> dom st"
  shows "derivesFrom_memo st a r = Some ((a, r) \<in> (parent_rel st)\<^sup>*)"
proof -
  have "cache_sound st r Map.empty" by (simp add: cache_sound_def)
  from derivesFrom_cached_reachable[OF assms this]
  show ?thesis by (auto simp: derivesFrom_memo_def)
qed

lemma derivesFrom_names_le:
  assumes df: "derivesFrom st a r = Some y"
  shows "\<forall>st'. same_parents st st' \<longrightarrow> derivesFrom st' a r = Some y"
proof (rule derivesFrom.raw_induct
    [where P = "\<lambda>st a r y. \<forall>st'. same_parents st st' \<longrightarrow> derivesFrom st' a r = Some y",
     rotated 1, OF df])
  fix df :: "'a store \<Rightarrow> 'a \<Rightarrow> 'a \<Rightarrow> bool option" and st this r y
  assume IH: "\<And>st this r y. df st this r = Some y \<Longrightarrow>
                \<forall>st'. same_parents st st' \<longrightarrow> derivesFrom st' this r = Some y"
    and body: "(if this = r then Some True
                else case st this of None \<Rightarrow> None
                     | Some obj \<Rightarrow> any_parent (\<lambda>i. df st i r) (m_parents obj)) = Some y"
  show "\<forall>st'. same_parents st st' \<longrightarrow> derivesFrom st' this r = Some y"
  proof (intro allI impI)
    fix st' assume sp: "same_parents st st'"
    show "derivesFrom st' this r = Some y"
    proof (cases "this = r")
      case True
      then show ?thesis using body by (subst derivesFrom.simps) simp
    next
      case False
      with body obtain obj where obj: "st this = Some obj"
        and loop: "any_parent (\<lambda>i. df st i r) (m_parents obj) = Some y"
        by (auto split: option.splits)
      from sp obj obtain obj' where obj': "st' this = Some obj'"
        and same: "m_parents obj' = m_parents obj"
        unfolding same_parents_def by (metis map_option_eq_Some option.simps(9))
      have "any_parent (\<lambda>i. derivesFrom st' i r) (m_parents obj) = Some y"
        using loop
      proof (rule any_parent_transfer)
        fix p z assume "df st p r = Some z"
        from IH[OF this] sp show "derivesFrom st' p r = Some z" by blast
      qed
      then show ?thesis using False obj' same by (subst derivesFrom.simps) simp
    qed
  qed
qed

lemma same_parents_sym: "same_parents st st' \<Longrightarrow> same_parents st' st"
  by (simp add: same_parents_def)

lemma derivesFrom_names_irrelevant:
  assumes sp: "same_parents st st'"
  shows "derivesFrom st a r = derivesFrom st' a r"
proof (cases "derivesFrom st a r")
  case (Some y)
  from derivesFrom_names_le[OF Some] sp have "derivesFrom st' a r = Some y" by blast
  with Some show ?thesis by simp
next
  case None
  show ?thesis
  proof (cases "derivesFrom st' a r")
    case None': None
    with None show ?thesis by simp
  next
    case (Some y)
    from derivesFrom_names_le[OF Some] same_parents_sym[OF sp]
    have "derivesFrom st a r = Some y" by blast
    with None show ?thesis by simp
  qed
qed

subsection \<open>The stores of the two tests\<close>

lemma classless_constructed: "constructed classlessRTTITest_store"
  unfolding classlessRTTITest_store_def Let_def
  by (intro constructed.intros) (simp_all add: dom_ctor)

lemma static_constructed: "constructed static_store"
  unfolding static_store_def Let_def RTTI_DEFINE_def
  by (intro constructed.intros) (simp_all add: dom_ctor)

lemma classless_dom:
  "dom classlessRTTITest_store = {vehicleType, landVehicleType, waterVehicleType, amphibiousVehicleType, fruitType}"
  unfolding classlessRTTITest_store_def Let_def by (auto simp: dom_ctor)

lemma classless_amphibious_vehicle:
  "derivesFrom classlessRTTITest_store amphibiousVehicleType vehicleType = Some True"
  by code_simp

lemma classless_vehicle_root:
  "classlessRTTITest_store vehicleType = Some \<lparr>m_className = ''Vehicle'', m_parents = []\<rparr>"
  by (simp add: classlessRTTITest_store_def RTTI_ctor_def)

lemma static_dom: "typeInfo c \<in> dom static_store"
  unfolding static_store_def Let_def RTTI_DEFINE_def
  by (cases c) (simp_all add: dom_ctor)

lemma static_teachingLibrarian_librarian:
  "derivesFrom static_store (typeInfo TeachingLibrarian) (typeInfo Librarian) = Some True"
  by code_simp

lemma static_librarian_staffMember:
  "derivesFrom static_store (typeInfo Librarian) (typeInfo StaffMember) = Some True"
  by code_simp

lemma static_staffMember_librarian:
  "derivesFrom static_store (typeInfo StaffMember) (typeInfo Librarian) = Some False"
  by code_simp

lemma classless_objects:
  "classlessRTTITest_store vehicleType = Some \<lparr>m_className = ''Vehicle'', m_parents = []\<rparr>"
  "classlessRTTITest_store landVehicleType
     = Some \<lparr>m_className = ''LandVehicle'', m_parents = [vehicleType]\<rparr>"
  "classlessRTTITest_store waterVehicleType
     = Some \<lparr>m_className = ''WaterVehicle'', m_parents = [vehicleType]\<rparr>"
  "classlessRTTITest_store amphibiousVehicleType
     = Some \<lparr>m_className = ''AmphibiousVehicle'',
             m_parents = [landVehicleType, waterVehicleType]\<rparr>"
  by (simp_all add: classlessRTTITest_store_def RTTI_ctor_def)

lemma classless_memo_amphibious_vehicle:
  "derivesFrom_memo classlessRTTITest_store amphibiousVehicleType vehicleType = Some True"
  by code_simp

subsection \<open>Order-theoretic facts used below\<close>

lemma acyclic_rtrancl_antisym:
  assumes "acyclic r" and "(a, b) \<in> r\<^sup>*" and "(b, a) \<in> r\<^sup>*"
  shows "a = b"
proof (rule ccontr)
  assume "a \<noteq> b"
  with assms(2,3) have "(a, b) \<in> r\<^sup>+" "(b, a) \<in> r\<^sup>+"
    by (auto dest: rtranclD)
  then have "(a, a) \<in> r\<^sup>+" by (rule trancl_trans)
  with assms(1) show False by (simp add: acyclic_def)
qed

lemma same_parents_ctor:
  "same_parents (RTTI_ctor this n parents st) (RTTI_ctor this n' parents st)"
  by (simp add: same_parents_def RTTI_ctor_def)

section \<open>The claims\<close>

text \<open>
  C1. In an acyclic descriptor graph, for descriptors \<open>A\<close> and \<open>B\<close> of the graph,
  \<open>A.derivesFrom(B)\<close> returns true exactly when \<open>B\<close> is reachable from \<open>A\<close> along zero or
  more parent edges; \<open>A.derivesFrom(A)\<close> is true; and a descriptor with an empty parent list
  derives from no descriptor other than itself.
\<close>

theorem derivesFrom_iff_reachable:
  assumes "acyclic_graph st" and "A \<in> dom st" and "B \<in> dom st"
  shows "derivesFrom st A B = Some ((A, B) \<in> (parent_rel st)\<^sup>*)
       \<and> derivesFrom st A A = Some True
       \<and> (\<forall>obj. st A = Some obj \<and> m_parents obj = [] \<and> B \<noteq> A \<longrightarrow> derivesFrom st A B = Some False)"
proof (intro conjI allI impI)
  show reach: "derivesFrom st A B = Some ((A, B) \<in> (parent_rel st)\<^sup>*)"
    using assms(1,2) by (rule derivesFrom_reachable)
  show "derivesFrom st A A = Some True"
    by (subst derivesFrom.simps) simp
  fix obj assume "st A = Some obj \<and> m_parents obj = [] \<and> B \<noteq> A"
  then show "derivesFrom st A B = Some False"
    by (subst derivesFrom.simps) auto
qed

theorem derivesFrom_iff_reachable_witness:
  "acyclic_graph classlessRTTITest_store
   \<and> amphibiousVehicleType \<in> dom classlessRTTITest_store
   \<and> vehicleType \<in> dom classlessRTTITest_store
   \<and> fruitType \<in> dom classlessRTTITest_store
   \<and> derivesFrom classlessRTTITest_store amphibiousVehicleType vehicleType = Some True
   \<and> (amphibiousVehicleType, vehicleType) \<in> (parent_rel classlessRTTITest_store)\<^sup>*
   \<and> classlessRTTITest_store vehicleType = Some \<lparr>m_className = ''Vehicle'', m_parents = []\<rparr>
   \<and> derivesFrom classlessRTTITest_store vehicleType fruitType = Some False
   \<and> (vehicleType, fruitType) \<notin> (parent_rel classlessRTTITest_store)\<^sup>*
   \<and> derivesFrom classlessRTTITest_store vehicleType vehicleType = Some True"
proof -
  have g: "acyclic_graph classlessRTTITest_store"
    using classless_constructed by (rule constructed_acyclic_graph)
  have a: "amphibiousVehicleType \<in> dom classlessRTTITest_store"
    and v: "vehicleType \<in> dom classlessRTTITest_store"
    and f: "fruitType \<in> dom classlessRTTITest_store"
    by (simp_all add: classless_dom)
  note up = derivesFrom_iff_reachable[OF g a v]
  note root = derivesFrom_iff_reachable[OF g v f]
  have "(amphibiousVehicleType, vehicleType) \<in> (parent_rel classlessRTTITest_store)\<^sup>*"
    using up classless_amphibious_vehicle by simp
  moreover have no: "derivesFrom classlessRTTITest_store vehicleType fruitType = Some False"
  proof -
    from root have "\<forall>obj. classlessRTTITest_store vehicleType = Some obj \<and> m_parents obj = []
          \<and> fruitType \<noteq> vehicleType
        \<longrightarrow> derivesFrom classlessRTTITest_store vehicleType fruitType = Some False"
      by blast
    then show ?thesis using classless_vehicle_root by simp
  qed
  moreover have "(vehicleType, fruitType) \<notin> (parent_rel classlessRTTITest_store)\<^sup>*"
  proof -
    from root have "derivesFrom classlessRTTITest_store vehicleType fruitType
        = Some ((vehicleType, fruitType) \<in> (parent_rel classlessRTTITest_store)\<^sup>*)"
      by (rule conjunct1)
    with no show ?thesis by simp
  qed
  ultimately show ?thesis
    using g a v f root classless_amphibious_vehicle classless_vehicle_root by blast
qed

text \<open>
  C2. On every store built by constructor calls whose parent lists refer only to descriptors
  built before, \<open>derivesFrom\<close> called on a descriptor of the store returns a boolean for
  every argument: the call never runs forever and never reads unconstructed memory.
\<close>

theorem derivesFrom_total:
  assumes "constructed st" and "A \<in> dom st"
  shows "\<exists>b. derivesFrom st A B = Some b"
proof -
  from assms(1) have "acyclic_graph st" by (rule constructed_acyclic_graph)
  from derivesFrom_reachable[OF this assms(2)] show ?thesis by blast
qed

theorem derivesFrom_total_witness:
  "constructed static_store \<and> typeInfo TeachingLibrarian \<in> dom static_store
   \<and> (\<exists>b. derivesFrom static_store (typeInfo TeachingLibrarian) (typeInfo Sailboat) = Some b)"
proof -
  have d: "typeInfo TeachingLibrarian \<in> dom static_store" by (simp add: static_dom)
  from derivesFrom_total[OF static_constructed d] static_constructed d show ?thesis by blast
qed

text \<open>
  C3. Every store reached by a sequence of such constructions has an acyclic parent graph:
  no descriptor is reachable from itself along one or more parent edges.
\<close>

theorem constructed_acyclic:
  assumes "constructed st"
  shows "(A, A) \<notin> (parent_rel st)\<^sup>+"
proof -
  from assms have "acyclic_graph st" by (rule constructed_acyclic_graph)
  then have "acyclic (parent_rel st)" by (simp add: acyclic_graph_def)
  then show ?thesis by (simp add: acyclic_def)
qed

theorem constructed_acyclic_witness:
  "constructed classlessRTTITest_store
   \<and> (amphibiousVehicleType, amphibiousVehicleType) \<notin> (parent_rel classlessRTTITest_store)\<^sup>+"
  using constructed_acyclic[OF classless_constructed] classless_constructed by blast

text \<open>
  C4. \<open>derivesFrom\<close> is transitive on an acyclic descriptor graph: if \<open>A.derivesFrom(B)\<close>
  and \<open>B.derivesFrom(C)\<close> are true, so is \<open>A.derivesFrom(C)\<close>.
\<close>

theorem derivesFrom_transitive:
  assumes "acyclic_graph st" and "A \<in> dom st" and "B \<in> dom st" and "C \<in> dom st"
    and "derivesFrom st A B = Some True" and "derivesFrom st B C = Some True"
  shows "derivesFrom st A C = Some True"
proof -
  have "(A, B) \<in> (parent_rel st)\<^sup>*"
    using derivesFrom_reachable[OF assms(1,2), of B] assms(5) by simp
  moreover have "(B, C) \<in> (parent_rel st)\<^sup>*"
    using derivesFrom_reachable[OF assms(1,3), of C] assms(6) by simp
  ultimately have "(A, C) \<in> (parent_rel st)\<^sup>*" by (rule rtrancl_trans)
  then show ?thesis using derivesFrom_reachable[OF assms(1,2), of C] by simp
qed

theorem derivesFrom_transitive_witness:
  "acyclic_graph static_store
   \<and> typeInfo TeachingLibrarian \<in> dom static_store
   \<and> typeInfo Librarian \<in> dom static_store
   \<and> typeInfo StaffMember \<in> dom static_store
   \<and> derivesFrom static_store (typeInfo TeachingLibrarian) (typeInfo Librarian) = Some True
   \<and> derivesFrom static_store (typeInfo Librarian) (typeInfo StaffMember) = Some True
   \<and> derivesFrom static_store (typeInfo TeachingLibrarian) (typeInfo StaffMember) = Some True"
proof -
  have g: "acyclic_graph static_store"
    using static_constructed by (rule constructed_acyclic_graph)
  have d: "typeInfo TeachingLibrarian \<in> dom static_store"
    "typeInfo Librarian \<in> dom static_store" "typeInfo StaffMember \<in> dom static_store"
    by (simp_all add: static_dom)
  from derivesFrom_transitive[OF g d static_teachingLibrarian_librarian static_librarian_staffMember]
    g d static_teachingLibrarian_librarian static_librarian_staffMember
  show ?thesis by blast
qed

text \<open>
  C5. \<open>derivesFrom\<close> is antisymmetric on an acyclic descriptor graph: if \<open>A.derivesFrom(B)\<close>
  and \<open>B.derivesFrom(A)\<close> are both true then \<open>A\<close> and \<open>B\<close> are the same descriptor; that is,
  when \<open>A\<close> derives from \<open>B\<close> and \<open>A\<close> is not \<open>B\<close>, \<open>B.derivesFrom(A)\<close> is false.
\<close>

theorem derivesFrom_antisymmetric:
  assumes "acyclic_graph st" and "A \<in> dom st" and "B \<in> dom st"
  shows "(derivesFrom st A B = Some True \<and> derivesFrom st B A = Some True \<longrightarrow> A = B)
       \<and> (derivesFrom st A B = Some True \<and> A \<noteq> B \<longrightarrow> derivesFrom st B A = Some False)"
proof -
  have ac: "acyclic (parent_rel st)" using assms(1) by (simp add: acyclic_graph_def)
  have ab: "derivesFrom st A B = Some ((A, B) \<in> (parent_rel st)\<^sup>*)"
    using assms(1,2) by (rule derivesFrom_reachable)
  have ba: "derivesFrom st B A = Some ((B, A) \<in> (parent_rel st)\<^sup>*)"
    using assms(1,3) by (rule derivesFrom_reachable)
  have anti: "A = B" if "(A, B) \<in> (parent_rel st)\<^sup>*" "(B, A) \<in> (parent_rel st)\<^sup>*"
    using ac that by (rule acyclic_rtrancl_antisym)
  show ?thesis using ab ba anti by auto
qed

theorem derivesFrom_antisymmetric_witness:
  "acyclic_graph static_store
   \<and> typeInfo Librarian \<in> dom static_store
   \<and> typeInfo StaffMember \<in> dom static_store
   \<and> derivesFrom static_store (typeInfo Librarian) (typeInfo StaffMember) = Some True
   \<and> typeInfo Librarian \<noteq> typeInfo StaffMember
   \<and> derivesFrom static_store (typeInfo StaffMember) (typeInfo Librarian) = Some False"
proof -
  have g: "acyclic_graph static_store"
    using static_constructed by (rule constructed_acyclic_graph)
  have d: "typeInfo Librarian \<in> dom static_store" "typeInfo StaffMember \<in> dom static_store"
    by (simp_all add: static_dom)
  have ne: "typeInfo Librarian \<noteq> typeInfo StaffMember" by simp
  from derivesFrom_antisymmetric[OF g d] static_librarian_staffMember ne
  have "derivesFrom static_store (typeInfo StaffMember) (typeInfo Librarian) = Some False"
    by blast
  with g d ne static_librarian_staffMember show ?thesis by blast
qed

text \<open>
  C6. Diamond inheritance: in any store with a root \<open>R\<close> without parents, descriptors \<open>A\<close>
  and \<open>B\<close> whose parent list is exactly \<open>[R]\<close>, and a leaf \<open>L\<close> whose parent list is exactly
  \<open>[A, B]\<close>, the call \<open>L.derivesFrom(R)\<close> returns true.
\<close>

theorem diamond_derivesFrom:
  assumes "st R = Some r" and "m_parents r = []"
    and "st A = Some a" and "m_parents a = [R]"
    and "st B = Some b" and "m_parents b = [R]"
    and "st L = Some l" and "m_parents l = [A, B]"
  shows "derivesFrom st L R = Some True"
proof -
  have RR: "derivesFrom st R R = Some True"
    by (subst derivesFrom.simps) simp
  have "A \<noteq> R" using assms(1-4) by auto
  then have AR: "derivesFrom st A R = Some True"
    using assms(3,4) RR by (subst derivesFrom.simps) simp
  have "L \<noteq> R" using assms(1,2,7,8) by auto
  then show ?thesis
    using assms(7,8) AR by (subst derivesFrom.simps) simp
qed

theorem diamond_derivesFrom_witness:
  "classlessRTTITest_store vehicleType = Some \<lparr>m_className = ''Vehicle'', m_parents = []\<rparr>
   \<and> classlessRTTITest_store landVehicleType
       = Some \<lparr>m_className = ''LandVehicle'', m_parents = [vehicleType]\<rparr>
   \<and> classlessRTTITest_store waterVehicleType
       = Some \<lparr>m_className = ''WaterVehicle'', m_parents = [vehicleType]\<rparr>
   \<and> classlessRTTITest_store amphibiousVehicleType
       = Some \<lparr>m_className = ''AmphibiousVehicle'',
               m_parents = [landVehicleType, waterVehicleType]\<rparr>
   \<and> derivesFrom classlessRTTITest_store amphibiousVehicleType vehicleType = Some True"
proof -
  have "derivesFrom classlessRTTITest_store amphibiousVehicleType vehicleType = Some True"
    by (rule diamond_derivesFrom[OF classless_objects(1) _ classless_objects(2) _
          classless_objects(3) _ classless_objects(4)]) simp_all
  with classless_objects show ?thesis by blast
qed

text \<open>
  C7. The statically bound hierarchy of the file: \<^verbatim>\<open>getTypeInfo\<close> returns the descriptor of
  the class the instance was created as, also through the \<^verbatim>\<open>StaffMember*\<close> pointers of the
  test, and the six queries of the test give true, false, false, true, true, false.
\<close>

theorem classful_demo:
  "(\<forall>C. getTypeInfo (Instance C) = typeInfo C)
   \<and> getTypeInfo staff = typeInfo StaffMember
   \<and> getTypeInfo librarian = typeInfo Librarian
   \<and> getTypeInfo teacher = typeInfo Teacher
   \<and> getTypeInfo teachingLibrarian = typeInfo TeachingLibrarian
   \<and> getTypeInfo sailboat = typeInfo Sailboat
   \<and> derivesFrom static_store (typeInfo Librarian) (typeInfo StaffMember) = Some True
   \<and> derivesFrom static_store (typeInfo Librarian) (typeInfo Sailboat) = Some False
   \<and> derivesFrom static_store (typeInfo Librarian) (typeInfo Teacher) = Some False
   \<and> derivesFrom static_store (typeInfo TeachingLibrarian) (typeInfo Librarian) = Some True
   \<and> derivesFrom static_store (typeInfo TeachingLibrarian) (typeInfo StaffMember) = Some True
   \<and> derivesFrom static_store (typeInfo TeachingLibrarian) (typeInfo Sailboat) = Some False"
proof (intro conjI allI)
  fix C show "getTypeInfo (Instance C) = typeInfo C" by (cases C) simp_all
next
  show "getTypeInfo staff = typeInfo StaffMember" by (simp add: staff_def)
  show "getTypeInfo librarian = typeInfo Librarian" by (simp add: librarian_def)
  show "getTypeInfo teacher = typeInfo Teacher" by (simp add: teacher_def)
  show "getTypeInfo teachingLibrarian = typeInfo TeachingLibrarian"
    by (simp add: teachingLibrarian_def)
  show "getTypeInfo sailboat = typeInfo Sailboat" by (simp add: sailboat_def)
  show "derivesFrom static_store (typeInfo Librarian) (typeInfo StaffMember) = Some True"
    by code_simp
  show "derivesFrom static_store (typeInfo Librarian) (typeInfo Sailboat) = Some False"
    by code_simp
  show "derivesFrom static_store (typeInfo Librarian) (typeInfo Teacher) = Some False"
    by code_simp
  show "derivesFrom static_store (typeInfo TeachingLibrarian) (typeInfo Librarian) = Some True"
    by code_simp
  show "derivesFrom static_store (typeInfo TeachingLibrarian) (typeInfo StaffMember) = Some True"
    by code_simp
  show "derivesFrom static_store (typeInfo TeachingLibrarian) (typeInfo Sailboat) = Some False"
    by code_simp
qed

text \<open>
  C8. The memoized variant returns the same boolean as the depth-first \<open>derivesFrom\<close> of
  the source, for every pair of descriptors of an acyclic descriptor graph.
\<close>

theorem derivesFrom_memo_equiv:
  assumes "acyclic_graph st" and "A \<in> dom st" and "B \<in> dom st"
  shows "\<exists>b. derivesFrom st A B = Some b \<and> derivesFrom_memo st A B = Some b"
  using derivesFrom_reachable[OF assms(1,2)] derivesFrom_memo_reachable[OF assms(1,2)]
  by blast

theorem derivesFrom_memo_equiv_witness:
  "acyclic_graph classlessRTTITest_store
   \<and> amphibiousVehicleType \<in> dom classlessRTTITest_store
   \<and> vehicleType \<in> dom classlessRTTITest_store
   \<and> (\<exists>b. derivesFrom classlessRTTITest_store amphibiousVehicleType vehicleType = Some b
          \<and> derivesFrom_memo classlessRTTITest_store amphibiousVehicleType vehicleType = Some b)
   \<and> derivesFrom_memo classlessRTTITest_store amphibiousVehicleType vehicleType = Some True"
proof -
  have g: "acyclic_graph classlessRTTITest_store"
    using classless_constructed by (rule constructed_acyclic_graph)
  have a: "amphibiousVehicleType \<in> dom classlessRTTITest_store"
    and v: "vehicleType \<in> dom classlessRTTITest_store"
    by (simp_all add: classless_dom)
  from derivesFrom_memo_equiv[OF g a v] g a v classless_memo_amphibious_vehicle
  show ?thesis by blast
qed

text \<open>
  C9. Identity is the address, never the name: two distinct descriptors with equal class
  names and empty parent lists do not derive from one another, in either direction.
\<close>

theorem same_name_distinct_roots:
  assumes "A \<noteq> B" and "st A = Some a" and "st B = Some b"
    and "m_className a = m_className b" and "m_parents a = []" and "m_parents b = []"
  shows "derivesFrom st A B = Some False \<and> derivesFrom st B A = Some False"
proof
  show "derivesFrom st A B = Some False"
    using assms(1,2,5) by (subst derivesFrom.simps) simp
  show "derivesFrom st B A = Some False"
    using assms(1,3,6) by (subst derivesFrom.simps) auto
qed

theorem same_name_distinct_roots_witness:
  "(0::nat) \<noteq> 1
   \<and> twins 0 = Some \<lparr>m_className = ''Thing'', m_parents = []\<rparr>
   \<and> twins 1 = Some \<lparr>m_className = ''Thing'', m_parents = []\<rparr>
   \<and> derivesFrom twins 0 1 = Some False \<and> derivesFrom twins 1 0 = Some False"
proof -
  have z: "twins 0 = Some \<lparr>m_className = ''Thing'', m_parents = []\<rparr>"
    and o: "twins 1 = Some \<lparr>m_className = ''Thing'', m_parents = []\<rparr>"
    by (simp_all add: twins_def RTTI_ctor_def)
  have ne: "(0::nat) \<noteq> 1" by simp
  have "derivesFrom twins 0 1 = Some False \<and> derivesFrom twins 1 0 = Some False"
    by (rule same_name_distinct_roots[OF ne z o]) simp_all
  with ne z o show ?thesis by blast
qed

text \<open>
  C10. The constructor accepts the empty string as a name: the descriptor is built,
  \<^verbatim>\<open>getClassName\<close> returns the empty string, and \<open>derivesFrom\<close> gives on the resulting
  store the result it gives when the descriptor carries any other name.
\<close>

theorem empty_name_ctor:
  "RTTI_ctor this '''' parents st this = Some \<lparr>m_className = '''', m_parents = parents\<rparr>
   \<and> getClassName (RTTI_ctor this '''' parents st) this = Some ''''
   \<and> derivesFrom (RTTI_ctor this '''' parents st) A B
       = derivesFrom (RTTI_ctor this className parents st) A B"
proof (intro conjI)
  show "RTTI_ctor this '''' parents st this = Some \<lparr>m_className = '''', m_parents = parents\<rparr>"
    by (simp add: RTTI_ctor_def)
  show "getClassName (RTTI_ctor this '''' parents st) this = Some ''''"
    by (simp add: getClassName_def RTTI_ctor_def)
  show "derivesFrom (RTTI_ctor this '''' parents st) A B
       = derivesFrom (RTTI_ctor this className parents st) A B"
    using same_parents_ctor by (rule derivesFrom_names_irrelevant)
qed

end
